theory Spec2Isabelle
  imports Main "HOL-Library.Multiset"
begin

section \<open>JavaScript values and strings\<close>

text \<open>
  Strings are lists of code units; the model covers the code units 0 to 255, which is
  where every detector's pattern characters and classes live.  A cell value of a row is
  one of the JavaScript values a JSON payload can hold.  Numbers are the integers of
  magnitude below \<open>2 ^ 53\<close>, which \<^verbatim>\<open>String\<close> prints as plain signed decimals.
\<close>

datatype jsval =
    JUndefined
  | JNull
  | JBool bool
  | JNum int
  | JStr string
  | JArr "jsval list"
  | JObj

definition digit_char :: "int \<Rightarrow> char" where
  "digit_char d = ''0123456789'' ! nat (d mod 10)"

function show_digits :: "int \<Rightarrow> string" where
  "show_digits n = (if n < 10 then [digit_char n] else show_digits (n div 10) @ [digit_char n])"
  by pat_completeness auto
termination
  by (relation "measure nat") auto

definition show_int :: "int \<Rightarrow> string" where
  "show_int i = (if i < 0 then CHR ''-'' # show_digits (- i) else show_digits i)"

fun join_comma :: "string list \<Rightarrow> string" where
  "join_comma [] = []"
| "join_comma [s] = s"
| "join_comma (s # t # ss) = s @ '','' @ join_comma (t # ss)"

text \<open>\<^verbatim>\<open>String(value)\<close>: an array joins its elements with commas, printing
  \<^verbatim>\<open>null\<close> and \<^verbatim>\<open>undefined\<close> elements as the empty string; a plain object
  prints as \<^verbatim>\<open>[object Object]\<close>.\<close>

fun js_String :: "jsval \<Rightarrow> string" where
  "js_String JUndefined = ''undefined''"
| "js_String JNull = ''null''"
| "js_String (JBool b) = (if b then ''true'' else ''false'')"
| "js_String (JNum i) = show_int i"
| "js_String (JStr s) = s"
| "js_String (JArr vs) =
     join_comma (map (\<lambda>v. case v of JUndefined \<Rightarrow> [] | JNull \<Rightarrow> [] | _ \<Rightarrow> js_String v) vs)"
| "js_String JObj = ''[object Object]''"

text \<open>\<^verbatim>\<open>xs.slice(start, end)\<close> and \<^verbatim>\<open>xs.slice(start)\<close>: a negative index counts
  from the end, and both are clamped to the sequence.\<close>

definition rel_index :: "nat \<Rightarrow> int \<Rightarrow> nat" where
  "rel_index len k = (if k < 0 then nat (max (int len + k) 0) else min (nat k) len)"

definition js_slice :: "'a list \<Rightarrow> int \<Rightarrow> int \<Rightarrow> 'a list" where
  "js_slice xs start fin =
     (let k = rel_index (length xs) start; e = rel_index (length xs) fin
      in take (e - k) (drop k xs))"

definition js_slice_from :: "'a list \<Rightarrow> int \<Rightarrow> 'a list" where
  "js_slice_from xs start = drop (rel_index (length xs) start) xs"

section \<open>Regular expressions of the detectors\<close>

text \<open>
  The detectors use literals, character classes, \<^verbatim>\<open>\b\<close>, sequence, alternation,
  greedy \<^verbatim>\<open>?\<close>, greedy repetition of a class and fixed repetition of a group.  The
  matcher is a backtracking matcher in the list-of-successes style: it returns every
  position at which a match starting at the given position can end, in the order in
  which the backtracking of the source's engine tries them, so the head of the list is
  the match the engine reports.
\<close>

datatype citem = Ch char | Rng char char | WS

datatype cset = OneOf "citem list" | NoneOf "citem list"

datatype regex =
    Eps
  | Lit char
  | Cls cset
  | WordB
  | Seq regex regex
  | Alt regex regex
  | Opt regex
  | Rep cset nat "nat option"

fun Str :: "string \<Rightarrow> regex" where
  "Str [] = Eps"
| "Str (c # cs) = Seq (Lit c) (Str cs)"

fun Times :: "nat \<Rightarrow> regex \<Rightarrow> regex" where
  "Times 0 r = Eps"
| "Times (Suc n) r = Seq r (Times n r)"

definition code :: "char \<Rightarrow> nat" where
  "code c = of_char c"

definition in_range :: "char \<Rightarrow> char \<Rightarrow> char \<Rightarrow> bool" where
  "in_range lo hi c = (code lo \<le> code c \<and> code c \<le> code hi)"

definition is_lower :: "char \<Rightarrow> bool" where
  "is_lower c = in_range CHR ''a'' CHR ''z'' c"

definition is_upper :: "char \<Rightarrow> bool" where
  "is_upper c = in_range CHR ''A'' CHR ''Z'' c"

definition to_upper :: "char \<Rightarrow> char" where
  "to_upper c = (if is_lower c then char_of (code c - 32) else c)"

definition to_lower :: "char \<Rightarrow> char" where
  "to_lower c = (if is_upper c then char_of (code c + 32) else c)"

text \<open>Canonicalize of the engine under the \<^verbatim>\<open>i\<close> flag (no \<^verbatim>\<open>u\<close> flag): upper
  case, which on the modelled code units only matters for the ASCII letters, since a
  character outside ASCII never canonicalizes to an ASCII one.\<close>

definition canon :: "bool \<Rightarrow> char \<Rightarrow> char" where
  "canon ci c = (if ci then to_upper c else c)"

definition is_ws :: "char \<Rightarrow> bool" where
  "is_ws c = (code c \<in> {9, 10, 11, 12, 13, 32, 160})"

definition is_word :: "char \<Rightarrow> bool" where
  "is_word c = (is_lower c \<or> is_upper c \<or> in_range CHR ''0'' CHR ''9'' c \<or> c = CHR ''_'')"

fun in_item :: "bool \<Rightarrow> citem \<Rightarrow> char \<Rightarrow> bool" where
  "in_item ci (Ch a) c = (canon ci a = canon ci c)"
| "in_item ci (Rng lo hi) c =
     (in_range lo hi c \<or> (ci \<and> (in_range lo hi (to_upper c) \<or> in_range lo hi (to_lower c))))"
| "in_item ci WS c = is_ws c"

fun in_cset :: "bool \<Rightarrow> cset \<Rightarrow> char \<Rightarrow> bool" where
  "in_cset ci (OneOf items) c = list_ex (\<lambda>i. in_item ci i c) items"
| "in_cset ci (NoneOf items) c = (\<not> list_ex (\<lambda>i. in_item ci i c) items)"

text \<open>A position is the character before it, if any, and the text from it on.\<close>

type_synonym pos = "char option \<times> string"

fun word_before :: "pos \<Rightarrow> bool" where
  "word_before (None, s) = False"
| "word_before (Some c, s) = is_word c"

fun word_after :: "pos \<Rightarrow> bool" where
  "word_after (p, []) = False"
| "word_after (p, c # cs) = is_word c"

text \<open>The positions after 0, 1, 2, ... characters of a class, at most \<open>hi\<close> of them.\<close>

fun run_cls :: "bool \<Rightarrow> cset \<Rightarrow> nat option \<Rightarrow> pos \<Rightarrow> pos list" where
  "run_cls ci k hi (p, []) = [(p, [])]"
| "run_cls ci k hi (p, c # cs) =
     (p, c # cs) #
     (if hi \<noteq> Some 0 \<and> in_cset ci k c
      then run_cls ci k (map_option (\<lambda>h. h - 1) hi) (Some c, cs) else [])"

primrec rmatch :: "regex \<Rightarrow> bool \<Rightarrow> pos \<Rightarrow> pos list" where
  "rmatch Eps ci x = [x]"
| "rmatch (Lit a) ci x =
     (case snd x of [] \<Rightarrow> []
      | c # cs \<Rightarrow> if canon ci a = canon ci c then [(Some c, cs)] else [])"
| "rmatch (Cls k) ci x =
     (case snd x of [] \<Rightarrow> []
      | c # cs \<Rightarrow> if in_cset ci k c then [(Some c, cs)] else [])"
| "rmatch WordB ci x = (if word_before x \<noteq> word_after x then [x] else [])"
| "rmatch (Seq a b) ci x = concat (map (rmatch b ci) (rmatch a ci x))"
| "rmatch (Alt a b) ci x = rmatch a ci x @ rmatch b ci x"
| "rmatch (Opt a) ci x = rmatch a ci x @ [x]"
| "rmatch (Rep k lo hi) ci x = rev (drop lo (run_cls ci k hi x))"

text \<open>
  \<^verbatim>\<open>text.match(re)\<close> for a global \<open>re\<close>: matching restarts at index 0, tries every
  start index from left to right, and after a match continues at its end (one further
  when the match is empty).  \<open>skip\<close> counts the characters of the last match still to
  step over.  The result is \<^verbatim>\<open>null\<close> when nothing matches.
\<close>

fun scanFrom :: "regex \<Rightarrow> bool \<Rightarrow> char option \<Rightarrow> string \<Rightarrow> nat \<Rightarrow> string list" where
  "scanFrom r ci p [] skip =
     (if skip = 0 \<and> rmatch r ci (p, []) \<noteq> [] then [[]] else [])"
| "scanFrom r ci p (c # cs) skip =
     (if 0 < skip then scanFrom r ci (Some c) cs (skip - 1)
      else (case rmatch r ci (p, c # cs) of
              [] \<Rightarrow> scanFrom r ci (Some c) cs 0
            | e # _ \<Rightarrow>
                (let n = length (c # cs) - length (snd e)
                 in take n (c # cs) # scanFrom r ci (Some c) cs (n - 1))))"

definition js_match :: "regex \<Rightarrow> bool \<Rightarrow> string \<Rightarrow> string list option" where
  "js_match r ci text =
     (case scanFrom r ci None text 0 of [] \<Rightarrow> None | m # ms \<Rightarrow> Some (m # ms))"

section \<open>The Pattern Matcher\<close>

datatype severity = Critical | High | Medium | Low

record config =
  pattern :: regex
  flag_i :: bool
  name :: string
  cfg_severity :: severity

definition digit :: cset where
  "digit = OneOf [Rng CHR ''0'' CHR ''9'']"

definition whitespace :: cset where
  "whitespace = OneOf [WS]"

definition sep_dash :: cset where
  "sep_dash = OneOf [Ch CHR ''-'', WS]"

definition sep_dot :: cset where
  "sep_dot = OneOf [Ch CHR ''-'', Ch CHR ''.'', WS]"

definition assign :: regex where
  "assign = Seq (Rep whitespace 0 None) (Seq (Cls (OneOf [Ch CHR '':'', Ch CHR ''=''])) (Rep whitespace 0 None))"

definition quote :: regex where
  "quote = Opt (Cls (OneOf [Ch (CHR 0x27), Ch (CHR 0x22)]))"

definition under_dash :: regex where
  "under_dash = Opt (Cls (OneOf [Ch CHR ''_'', Ch CHR ''-'']))"

text \<open>\<^verbatim>\<open>/\b(?:\d{4}[-\s]?){3}\d{4}\b/g\<close>\<close>

definition creditCard_re :: regex where
  "creditCard_re =
     Seq WordB
      (Seq (Times 3 (Seq (Rep digit 4 (Some 4)) (Opt (Cls sep_dash))))
        (Seq (Rep digit 4 (Some 4)) WordB))"

text \<open>\<^verbatim>\<open>/\b[A-Za-z0-9._%+-]+@[A-Za-z0-9.-]+\.[A-Z|a-z]{2,}\b/g\<close>\<close>

definition email_re :: regex where
  "email_re =
     Seq WordB
      (Seq (Rep (OneOf [Rng CHR ''A'' CHR ''Z'', Rng CHR ''a'' CHR ''z'', Rng CHR ''0'' CHR ''9'',
                        Ch CHR ''.'', Ch CHR ''_'', Ch CHR ''%'', Ch CHR ''+'', Ch CHR ''-'']) 1 None)
        (Seq (Lit CHR ''@'')
          (Seq (Rep (OneOf [Rng CHR ''A'' CHR ''Z'', Rng CHR ''a'' CHR ''z'', Rng CHR ''0'' CHR ''9'',
                            Ch CHR ''.'', Ch CHR ''-'']) 1 None)
            (Seq (Lit CHR ''.'')
              (Seq (Rep (OneOf [Rng CHR ''A'' CHR ''Z'', Ch CHR ''|'', Rng CHR ''a'' CHR ''z'']) 2 None)
                WordB)))))"

text \<open>\<^verbatim>\<open>/\b(?:\+?1[-.\s]?)?\(?\d{3}\)?[-.\s]?\d{3}[-.\s]?\d{4}\b/g\<close>\<close>

definition phone_re :: regex where
  "phone_re =
     Seq WordB
      (Seq (Opt (Seq (Opt (Lit CHR ''+'')) (Seq (Lit CHR ''1'') (Opt (Cls sep_dot)))))
        (Seq (Opt (Lit CHR ''(''))
          (Seq (Rep digit 3 (Some 3))
            (Seq (Opt (Lit CHR '')''))
              (Seq (Opt (Cls sep_dot))
                (Seq (Rep digit 3 (Some 3))
                  (Seq (Opt (Cls sep_dot))
                    (Seq (Rep digit 4 (Some 4)) WordB))))))))"

text \<open>\<^verbatim>\<open>/\b(?:password|passwd|pwd)\s*[:=]\s*\S+/gi\<close>\<close>

definition password_re :: regex where
  "password_re =
     Seq WordB
      (Seq (Alt (Str ''password'') (Alt (Str ''passwd'') (Str ''pwd'')))
        (Seq assign (Rep (NoneOf [WS]) 1 None)))"

text \<open>\<^verbatim>\<open>/\b(?:api[_-]?key|apikey|api[_-]?token|access[_-]?token|secret[_-]?key)\s*[:=]\s*['"]?[A-Za-z0-9_\-]{10,}['"]?/gi\<close>\<close>

definition apiKey_re :: regex where
  "apiKey_re =
     Seq WordB
      (Seq (Alt (Seq (Str ''api'') (Seq under_dash (Str ''key'')))
           (Alt (Str ''apikey'')
           (Alt (Seq (Str ''api'') (Seq under_dash (Str ''token'')))
           (Alt (Seq (Str ''access'') (Seq under_dash (Str ''token'')))
                (Seq (Str ''secret'') (Seq under_dash (Str ''key'')))))))
        (Seq assign
          (Seq quote
            (Seq (Rep (OneOf [Rng CHR ''A'' CHR ''Z'', Rng CHR ''a'' CHR ''z'', Rng CHR ''0'' CHR ''9'',
                              Ch CHR ''_'', Ch CHR ''-'']) 10 None)
              quote))))"

text \<open>\<^verbatim>\<open>/\bAKIA[0-9A-Z]{16}\b/g\<close>\<close>

definition awsKey_re :: regex where
  "awsKey_re =
     Seq WordB
      (Seq (Str ''AKIA'')
        (Seq (Rep (OneOf [Rng CHR ''0'' CHR ''9'', Rng CHR ''A'' CHR ''Z'']) 16 (Some 16)) WordB))"

text \<open>\<^verbatim>\<open>/-----BEGIN\s+(?:RSA\s+)?PRIVATE\s+KEY-----/g\<close>\<close>

definition privateKey_re :: regex where
  "privateKey_re =
     Seq (Str ''-----BEGIN'')
      (Seq (Rep whitespace 1 None)
        (Seq (Opt (Seq (Str ''RSA'') (Rep whitespace 1 None)))
          (Seq (Str ''PRIVATE'')
            (Seq (Rep whitespace 1 None) (Str ''KEY-----'')))))"

text \<open>The registry, in the order \<^verbatim>\<open>Object.entries\<close> lists it.\<close>

definition SENSITIVE_PATTERNS :: "(string \<times> config) list" where
  "SENSITIVE_PATTERNS =
    [(''creditCard'', \<lparr>pattern = creditCard_re, flag_i = False, name = ''Credit Card Number'', cfg_severity = High\<rparr>),
     (''email'', \<lparr>pattern = email_re, flag_i = False, name = ''Email Address'', cfg_severity = Medium\<rparr>),
     (''phone'', \<lparr>pattern = phone_re, flag_i = False, name = ''Phone Number'', cfg_severity = Medium\<rparr>),
     (''password'', \<lparr>pattern = password_re, flag_i = True, name = ''Password'', cfg_severity = Critical\<rparr>),
     (''apiKey'', \<lparr>pattern = apiKey_re, flag_i = True, name = ''API Key/Token'', cfg_severity = Critical\<rparr>),
     (''awsKey'', \<lparr>pattern = awsKey_re, flag_i = False, name = ''AWS Access Key'', cfg_severity = Critical\<rparr>),
     (''privateKey'', \<lparr>pattern = privateKey_re, flag_i = False, name = ''Private Key'', cfg_severity = Critical\<rparr>)]"

record finding =
  f_type :: string
  f_name :: string
  f_severity :: severity
  f_count :: nat
  f_samples :: "string list"

text \<open>\<^verbatim>\<open>m.slice(0, 4) + '****' + m.slice(-2)\<close>\<close>

definition redact :: "string \<Rightarrow> string" where
  "redact m = js_slice m 0 4 @ ''****'' @ js_slice_from m (- 2)"

text \<open>The body of the loop of \<^verbatim>\<open>scanText\<close> for one registry entry: the findings it
  pushes.\<close>

definition scanEntry :: "string \<Rightarrow> string \<times> config \<Rightarrow> finding list" where
  "scanEntry text e =
     (case js_match (pattern (snd e)) (flag_i (snd e)) text of
        None \<Rightarrow> []
      | Some matches \<Rightarrow>
          [\<lparr>f_type = fst e, f_name = name (snd e), f_severity = cfg_severity (snd e),
            f_count = length matches, f_samples = map redact (js_slice matches 0 2)\<rparr>])"

text \<open>\<^verbatim>\<open>!text\<close> and \<^verbatim>\<open>typeof text\<close>.\<close>

fun truthy :: "jsval \<Rightarrow> bool" where
  "truthy JUndefined = False"
| "truthy JNull = False"
| "truthy (JBool b) = b"
| "truthy (JNum i) = (i \<noteq> 0)"
| "truthy (JStr s) = (s \<noteq> [])"
| "truthy (JArr vs) = True"
| "truthy JObj = True"

fun typeof :: "jsval \<Rightarrow> string" where
  "typeof JUndefined = ''undefined''"
| "typeof JNull = ''object''"
| "typeof (JBool b) = ''boolean''"
| "typeof (JNum i) = ''number''"
| "typeof (JStr s) = ''string''"
| "typeof (JArr vs) = ''object''"
| "typeof JObj = ''object''"

text \<open>\<^verbatim>\<open>scanText\<close>: the guard returns no findings for a falsy argument and for one
  that is not a string; otherwise every registry entry is tried in order.\<close>

definition scanText :: "jsval \<Rightarrow> finding list" where
  "scanText text =
     (if \<not> truthy text \<or> typeof text \<noteq> ''string'' then []
      else (case text of
              JStr t \<Rightarrow> concat (map (scanEntry t) SENSITIVE_PATTERNS)
            | _ \<Rightarrow> []))"

section \<open>Documents, tables, rows and the external collaborator\<close>

text \<open>
  A document's \<open>doc_updatedAt\<close> is the millisecond timestamp that
  \<^verbatim>\<open>new Date(doc.updatedAt).getTime()\<close> reads from it.  The entries of a table list and
  of a row list come from a JSON payload and may be \<^verbatim>\<open>null\<close> (\<open>None\<close>); a row's
  \<open>row_values\<close> and a table's embedded \<open>table_rows\<close> may be absent (\<open>None\<close>).
  \<open>row_values\<close> lists the cells in the order of \<^verbatim>\<open>Object.entries\<close>.
\<close>

record document =
  doc_id :: string
  doc_name :: string
  doc_updatedAt :: int
  doc_published :: bool
  doc_browserLink :: string

record row =
  row_id :: string
  row_values :: "(string \<times> jsval) list option"

record table =
  table_id :: string
  table_name :: string
  table_rows :: "row option list option"

text \<open>What a request to the document API gives: the \<^verbatim>\<open>items\<close> of the response's
  payload, which may be missing, or a failure with its \<^verbatim>\<open>error.message\<close>.\<close>

datatype 'a response = Items "'a list option" | Failed string

text \<open>
  The environment of the server: its configuration, the clock (the value of the
  \<open>n\<close>-th \<^verbatim>\<open>new Date()\<close> of the process) and the answers of the document API.
\<close>

record env =
  USE_DUMMY_DATA :: bool
  clock :: "nat \<Rightarrow> int"
  docs_response :: "document response"
  tables_response :: "string \<Rightarrow> table option response"
  rows_response :: "string \<Rightarrow> string \<Rightarrow> row option response"
  delete_response :: "string \<Rightarrow> string \<Rightarrow> string \<Rightarrow> string option"

section \<open>Alerts and the server's state\<close>

datatype alert_type = UNUSED_DOCUMENT | PUBLIC_DOCUMENT | SENSITIVE_DATA_TABLE

datatype alert_status = OPEN | ACKNOWLEDGED | REMEDIATED | IGNORED

datatype resource_type = Document_resource | Row_resource

text \<open>The metadata of the three rules: \<^verbatim>\<open>{lastUpdated, daysSinceUpdate}\<close>,
  \<^verbatim>\<open>{publishedUrl}\<close> and \<^verbatim>\<open>{tableId, tableName, columnName, sensitiveType}\<close>.\<close>

datatype metadata =
    Unused_meta int int
  | Public_meta string
  | Sensitive_meta string string string string

record alertData =
  atype :: alert_type
  severity :: severity
  title :: string
  description :: string
  docId :: string
  docName :: string
  resourceId :: string
  resourceType :: resource_type
  metadata :: metadata

record alert = alertData +
  alert_id :: nat
  status :: alert_status
  createdAt :: int
  updatedAt :: int

text \<open>
  The three globals of the process, the number of clock readings taken so far, and the
  delete requests sent to the document API so far.
\<close>

record server =
  documents :: "document list"
  alerts :: "alert list"
  alertIdCounter :: nat
  ticks :: nat
  delete_requests :: "(string \<times> string \<times> string) list"

definition initial_server :: server where
  "initial_server =
     \<lparr>documents = [], alerts = [], alertIdCounter = 1, ticks = 0, delete_requests = []\<rparr>"

subsection \<open>The collaborator's wrappers\<close>

text \<open>\<^verbatim>\<open>fetchDocumentsFromCoda\<close> rethrows; a payload without \<^verbatim>\<open>items\<close> makes
  \<^verbatim>\<open>response.data.items.length\<close> throw.\<close>

definition fetchDocumentsFromCoda :: "env \<Rightarrow> string + document list" where
  "fetchDocumentsFromCoda e =
     (case docs_response e of
        Items (Some ds) \<Rightarrow> Inr ds
      | Items None \<Rightarrow> Inl ''Cannot read properties of undefined (reading 'length')''
      | Failed msg \<Rightarrow> Inl msg)"

text \<open>\<^verbatim>\<open>fetchTablesFromCoda\<close> and \<^verbatim>\<open>fetchRowsFromCoda\<close> catch every failure and
  return the empty list.\<close>

definition fetchTablesFromCoda :: "env \<Rightarrow> string \<Rightarrow> table option list" where
  "fetchTablesFromCoda e d =
     (case tables_response e d of
        Items (Some ts) \<Rightarrow> ts
      | Items None \<Rightarrow> []
      | Failed msg \<Rightarrow> [])"

definition fetchRowsFromCoda :: "env \<Rightarrow> string \<Rightarrow> string \<Rightarrow> row option list" where
  "fetchRowsFromCoda e d t =
     (case rows_response e d t of
        Items (Some rs) \<Rightarrow> rs
      | Items None \<Rightarrow> []
      | Failed msg \<Rightarrow> [])"

text \<open>\<^verbatim>\<open>deleteRowFromCoda\<close> sends the request and rethrows its failure: \<open>None\<close> is
  the normal return, \<open>Some msg\<close> the thrown error's message.\<close>

definition deleteRowFromCoda :: "env \<Rightarrow> string \<Rightarrow> string \<Rightarrow> string \<Rightarrow> server \<Rightarrow> string option \<times> server" where
  "deleteRowFromCoda e d t r s =
     (delete_response e d t r, s\<lparr>delete_requests := delete_requests s @ [(d, t, r)]\<rparr>)"

subsection \<open>createAlert\<close>

definition same_open :: "alertData \<Rightarrow> alert \<Rightarrow> bool" where
  "same_open alertData a =
     (atype a = atype alertData \<and> docId a = docId alertData \<and>
      resourceId a = resourceId alertData \<and> status a = OPEN)"

text \<open>The object \<^verbatim>\<open>createAlert\<close> builds: the draft's fields, the next id, status
  open, and two readings of the clock.\<close>

definition new_alert :: "env \<Rightarrow> alertData \<Rightarrow> server \<Rightarrow> alert" where
  "new_alert e alertData s =
     \<lparr>atype = atype alertData, severity = severity alertData,
      title = title alertData, description = description alertData,
      docId = docId alertData, docName = docName alertData,
      resourceId = resourceId alertData, resourceType = resourceType alertData,
      metadata = metadata alertData,
      alert_id = alertIdCounter s, status = OPEN,
      createdAt = clock e (ticks s), updatedAt = clock e (Suc (ticks s))\<rparr>"

definition createAlert :: "env \<Rightarrow> alertData \<Rightarrow> server \<Rightarrow> alert \<times> server" where
  "createAlert e alertData s =
     (case find (same_open alertData) (alerts s) of
        Some existing \<Rightarrow> (existing, s)
      | None \<Rightarrow>
          (new_alert e alertData s,
           s\<lparr>alerts := alerts s @ [new_alert e alertData s],
             alertIdCounter := Suc (alertIdCounter s),
             ticks := Suc (Suc (ticks s))\<rparr>))"

section \<open>The security scanner\<close>

record scanResults =
  documentsScanned :: nat
  alertsCreated :: nat
  errors :: "(string \<times> string) list"

definition TEN_MINUTES_MS :: int where
  "TEN_MINUTES_MS = 10 * 60 * 1000"

text \<open>The drafts handed to \<^verbatim>\<open>createAlert\<close> by the three rules.\<close>

definition unused_draft :: "document \<Rightarrow> int \<Rightarrow> alertData" where
  "unused_draft doc daysSinceUpdate =
     \<lparr>atype = UNUSED_DOCUMENT, severity = Low,
      title = ''Unused Document: '' @ doc_name doc,
      description = ''Document has not been modified in '' @ show_int daysSinceUpdate @ '' days'',
      docId = doc_id doc, docName = doc_name doc, resourceId = doc_id doc,
      resourceType = Document_resource,
      metadata = Unused_meta (doc_updatedAt doc) daysSinceUpdate\<rparr>"

definition public_draft :: "document \<Rightarrow> alertData" where
  "public_draft doc =
     \<lparr>atype = PUBLIC_DOCUMENT, severity = High,
      title = ''Publicly Published: '' @ doc_name doc,
      description = ''Document is publicly accessible - potential data exposure risk'',
      docId = doc_id doc, docName = doc_name doc, resourceId = doc_id doc,
      resourceType = Document_resource,
      metadata = Public_meta (doc_browserLink doc)\<rparr>"

definition sensitive_draft :: "document \<Rightarrow> table \<Rightarrow> row \<Rightarrow> string \<Rightarrow> finding \<Rightarrow> alertData" where
  "sensitive_draft doc tbl rw colName f =
     \<lparr>atype = SENSITIVE_DATA_TABLE, severity = f_severity f,
      title = f_name f @ '' found in: '' @ table_name tbl,
      description = ''Detected '' @ show_int (int (f_count f)) @ '' instance(s) in column ''
                    @ [CHR 0x22] @ colName @ [CHR 0x22],
      docId = doc_id doc, docName = doc_name doc, resourceId = row_id rw,
      resourceType = Row_resource,
      metadata = Sensitive_meta (table_id tbl) (table_name tbl) colName (f_type f)\<rparr>"

text \<open>The loop state is the server together with the result under construction.
  Each loop of \<^verbatim>\<open>runSecurityScan\<close> is one recursive function, innermost first.\<close>

type_synonym scan_state = "server \<times> scanResults"

text \<open>\<^verbatim>\<open>createAlert({...}); scanResults.alertsCreated++;\<close>\<close>

definition create_and_count :: "env \<Rightarrow> alertData \<Rightarrow> scan_state \<Rightarrow> scan_state" where
  "create_and_count e d sr =
     (snd (createAlert e d (fst sr)), (snd sr)\<lparr>alertsCreated := Suc (alertsCreated (snd sr))\<rparr>)"

fun scanFindings :: "env \<Rightarrow> document \<Rightarrow> table \<Rightarrow> row \<Rightarrow> string \<Rightarrow> finding list \<Rightarrow> scan_state \<Rightarrow> scan_state" where
  "scanFindings e doc tbl rw colName [] sr = sr"
| "scanFindings e doc tbl rw colName (f # fs) sr =
     scanFindings e doc tbl rw colName fs
       (create_and_count e (sensitive_draft doc tbl rw colName f) sr)"

fun scanColumns :: "env \<Rightarrow> document \<Rightarrow> table \<Rightarrow> row \<Rightarrow> (string \<times> jsval) list \<Rightarrow> scan_state \<Rightarrow> scan_state" where
  "scanColumns e doc tbl rw [] sr = sr"
| "scanColumns e doc tbl rw ((colName, v) # cols) sr =
     scanColumns e doc tbl rw cols
       (scanFindings e doc tbl rw colName (scanText (JStr (js_String v))) sr)"

text \<open>A \<^verbatim>\<open>null\<close> row makes \<^verbatim>\<open>row.values\<close> throw, and a \<^verbatim>\<open>null\<close> table
  makes \<^verbatim>\<open>table.rows\<close> or \<^verbatim>\<open>table.id\<close> throw; the loops return the thrown
  message (as Node's engine words it), if any, with the state reached.\<close>

fun scanRows :: "env \<Rightarrow> document \<Rightarrow> table \<Rightarrow> row option list \<Rightarrow> scan_state \<Rightarrow> string option \<times> scan_state" where
  "scanRows e doc tbl [] sr = (None, sr)"
| "scanRows e doc tbl (None # rows) sr =
     (Some ''Cannot read properties of null (reading 'values')'', sr)"
| "scanRows e doc tbl (Some rw # rows) sr =
     scanRows e doc tbl rows
       (scanColumns e doc tbl rw (case row_values rw of None \<Rightarrow> [] | Some vs \<Rightarrow> vs) sr)"

definition rows_of :: "env \<Rightarrow> document \<Rightarrow> table \<Rightarrow> row option list" where
  "rows_of e doc tbl =
     (if USE_DUMMY_DATA e then (case table_rows tbl of None \<Rightarrow> [] | Some rs \<Rightarrow> rs)
      else fetchRowsFromCoda e (doc_id doc) (table_id tbl))"

fun scanTables :: "env \<Rightarrow> document \<Rightarrow> table option list \<Rightarrow> scan_state \<Rightarrow> string option \<times> scan_state" where
  "scanTables e doc [] sr = (None, sr)"
| "scanTables e doc (None # tables) sr =
     (Some (if USE_DUMMY_DATA e then ''Cannot read properties of null (reading 'rows')''
            else ''Cannot read properties of null (reading 'id')''), sr)"
| "scanTables e doc (Some tbl # tables) sr =
     (case scanRows e doc tbl (rows_of e doc tbl) sr of
        (Some err, sr') \<Rightarrow> (Some err, sr')
      | (None, sr') \<Rightarrow> scanTables e doc tables sr')"

text \<open>The body of the loop over the documents; \<open>now\<close> is the clock reading taken
  when the scan started.\<close>

definition staleness_rule :: "env \<Rightarrow> int \<Rightarrow> document \<Rightarrow> scan_state \<Rightarrow> scan_state" where
  "staleness_rule e now doc sr =
     (let daysSinceUpdate = now - doc_updatedAt doc
      in if daysSinceUpdate \<ge> TEN_MINUTES_MS
         then create_and_count e (unused_draft doc daysSinceUpdate) sr else sr)"

definition exposure_rule :: "env \<Rightarrow> document \<Rightarrow> scan_state \<Rightarrow> scan_state" where
  "exposure_rule e doc sr =
     (if doc_published doc then create_and_count e (public_draft doc) sr else sr)"

definition content_rule :: "env \<Rightarrow> document \<Rightarrow> scan_state \<Rightarrow> scan_state" where
  "content_rule e doc sr =
     (case scanTables e doc (fetchTablesFromCoda e (doc_id doc)) sr of
        (None, sr') \<Rightarrow> sr'
      | (Some err, sr') \<Rightarrow>
          (fst sr', (snd sr')\<lparr>errors := errors (snd sr') @ [(doc_id doc, err)]\<rparr>))"

text \<open>\<^verbatim>\<open>scanResults.documentsScanned++\<close>\<close>

definition count_document :: "scan_state \<Rightarrow> scan_state" where
  "count_document sr = (fst sr, (snd sr)\<lparr>documentsScanned := Suc (documentsScanned (snd sr))\<rparr>)"

definition scanDocument :: "env \<Rightarrow> int \<Rightarrow> document \<Rightarrow> scan_state \<Rightarrow> scan_state" where
  "scanDocument e now doc sr =
     content_rule e doc (exposure_rule e doc (staleness_rule e now doc (count_document sr)))"

fun scanDocuments :: "env \<Rightarrow> int \<Rightarrow> document list \<Rightarrow> scan_state \<Rightarrow> scan_state" where
  "scanDocuments e now [] sr = sr"
| "scanDocuments e now (doc # docs) sr = scanDocuments e now docs (scanDocument e now doc sr)"

text \<open>\<^verbatim>\<open>runSecurityScan\<close>: \<open>Inl\<close> is the rethrown failure of the document fetch.\<close>

definition runSecurityScan :: "env \<Rightarrow> server \<Rightarrow> (string + scanResults) \<times> server" where
  "runSecurityScan e s =
     (let now = clock e (ticks s);
          s1 = s\<lparr>ticks := Suc (ticks s)\<rparr>
      in case fetchDocumentsFromCoda e of
           Inl err \<Rightarrow> (Inl err, s1)
         | Inr docs \<Rightarrow>
             (let sr = scanDocuments e now docs
                         (s1\<lparr>documents := docs\<rparr>,
                          \<lparr>documentsScanned = 0, alertsCreated = 0, errors = []\<rparr>)
              in (Inr (snd sr), fst sr)))"

section \<open>The alert endpoints\<close>

text \<open>What \<^verbatim>\<open>parseInt\<close> returns, and the arithmetic on it.\<close>

datatype jsnum = NaN | Num int












text \<open>\<^verbatim>\<open>alerts.find(a => a.id === parseInt(req.params.id))\<close>\<close>

definition has_id :: "jsnum \<Rightarrow> alert \<Rightarrow> bool" where
  "has_id i a = (Num (int (alert_id a)) = i)"

definition find_alert :: "jsnum \<Rightarrow> server \<Rightarrow> alert option" where
  "find_alert i s = find (has_id i) (alerts s)"

text \<open>The found alert is an element of the array, and assigning to its fields changes
  that element: the first one with the id.\<close>

fun update_first :: "('a \<Rightarrow> bool) \<Rightarrow> ('a \<Rightarrow> 'a) \<Rightarrow> 'a list \<Rightarrow> 'a list" where
  "update_first P f [] = []"
| "update_first P f (x # xs) = (if P x then f x # xs else x # update_first P f xs)"

text \<open>\<^verbatim>\<open>alert.status = v; alert.updatedAt = new Date().toISOString();\<close>\<close>

definition assign_status :: "env \<Rightarrow> jsnum \<Rightarrow> alert_status \<Rightarrow> server \<Rightarrow> server" where
  "assign_status e i v s =
     s\<lparr>alerts := update_first (has_id i) (\<lambda>a. a\<lparr>status := v, updatedAt := clock e (ticks s)\<rparr>) (alerts s),
       ticks := Suc (ticks s)\<rparr>"

text \<open>\<^verbatim>\<open>Object.values(ALERT_STATUS).includes(status)\<close>, with the member found.\<close>

definition status_of :: "jsval \<Rightarrow> alert_status option" where
  "status_of v =
     (case v of
        JStr t \<Rightarrow>
          (if t = ''open'' then Some OPEN
           else if t = ''acknowledged'' then Some ACKNOWLEDGED
           else if t = ''remediated'' then Some REMEDIATED
           else if t = ''ignored'' then Some IGNORED
           else None)
      | _ \<Rightarrow> None)"

datatype 'a reply = Status404 | Status400 | Json 'a

text \<open>\<^verbatim>\<open>PATCH /api/alerts/:id/status\<close>\<close>

definition patch_status :: "env \<Rightarrow> jsnum \<Rightarrow> jsval \<Rightarrow> server \<Rightarrow> alert reply \<times> server" where
  "patch_status e i st s =
     (case find_alert i s of
        None \<Rightarrow> (Status404, s)
      | Some alert \<Rightarrow>
          (case status_of st of
             None \<Rightarrow> (Status400, s)
           | Some v \<Rightarrow>
               (Json (alert\<lparr>status := v, updatedAt := clock e (ticks s)\<rparr>),
                assign_status e i v s)))"

record result =
  success :: bool
  message :: string

text \<open>\<^verbatim>\<open>alert.metadata.tableId\<close>, as the request's path prints it.\<close>

fun tableId :: "metadata \<Rightarrow> string" where
  "tableId (Sensitive_meta t n c k) = t"
| "tableId m = ''undefined''"

text \<open>\<^verbatim>\<open>POST /api/alerts/:id/remediate\<close>\<close>

definition remediate :: "env \<Rightarrow> jsnum \<Rightarrow> string \<Rightarrow> server \<Rightarrow> result reply \<times> server" where
  "remediate e i action s =
     (case find_alert i s of
        None \<Rightarrow> (Status404, s)
      | Some alert \<Rightarrow>
          (if action = ''delete'' then
             (if resourceType alert = Row_resource then
                (case deleteRowFromCoda e (docId alert) (tableId (metadata alert)) (resourceId alert) s of
                   (None, s1) \<Rightarrow>
                     (Json \<lparr>success = True, message = ''Row deleted successfully''\<rparr>,
                      assign_status e i REMEDIATED s1)
                 | (Some err, s1) \<Rightarrow>
                     (Json \<lparr>success = False, message = ''Failed to delete: '' @ err\<rparr>, s1))
              else
                (Json \<lparr>success = False, message = ''Delete action only supported for table rows''\<rparr>, s))
           else if action = ''acknowledge'' then
             (Json \<lparr>success = True, message = ''Alert acknowledged''\<rparr>,
              assign_status e i ACKNOWLEDGED s)
           else if action = ''ignore'' then
             (Json \<lparr>success = True, message = ''Alert ignored''\<rparr>,
              assign_status e i IGNORED s)
           else
             (Json \<lparr>success = False, message = ''Invalid action. Use: delete, acknowledge, or ignore''\<rparr>, s)))"

text \<open>The operations on the alert store, and a sequence of them run in order.\<close>

datatype request =
    Create alertData
  | Patch_status jsnum jsval
  | Remediate jsnum string

fun handle :: "env \<Rightarrow> request \<Rightarrow> server \<Rightarrow> server" where
  "handle e (Create d) s = snd (createAlert e d s)"
| "handle e (Patch_status i st) s = snd (patch_status e i st s)"
| "handle e (Remediate i action) s = snd (remediate e i action s)"

fun handle_all :: "env \<Rightarrow> request list \<Rightarrow> server \<Rightarrow> server" where
  "handle_all e [] s = s"
| "handle_all e (q # qs) s = handle_all e qs (handle e q s)"

section \<open>Specification predicates and fixtures\<close>


text \<open>A clock whose readings are five minutes apart, and an environment in demo mode
  around a document list and its table lists; every delete request fails.\<close>

definition fixture_clock :: "nat \<Rightarrow> int" where
  "fixture_clock n = 1000000000 + 300000 * int n"

definition fixture_env :: "document list \<Rightarrow> (string \<Rightarrow> table option response) \<Rightarrow> env" where
  "fixture_env docs tbls =
     \<lparr>USE_DUMMY_DATA = True, clock = fixture_clock, docs_response = Items (Some docs),
      tables_response = tbls, rows_response = (\<lambda>d t. Items None),
      delete_response = (\<lambda>d t r. Some ''Request failed with status code 404'')\<rparr>"

definition no_tables :: "string \<Rightarrow> table option response" where
  "no_tables d = Items (Some [])"

text \<open>The dedup key of a draft or an alert, and the keys of the open alerts of a store.\<close>

definition key :: "'a alertData_scheme \<Rightarrow> alert_type \<times> string \<times> string" where
  "key d = (atype d, docId d, resourceId d)"

definition is_open :: "alert \<Rightarrow> bool" where
  "is_open a = (status a = OPEN)"

definition open_keys :: "alert list \<Rightarrow> (alert_type \<times> string \<times> string) list" where
  "open_keys as = map key (filter is_open as)"

text \<open>At most one open alert for each key.\<close>

definition open_unique :: "alert list \<Rightarrow> bool" where
  "open_unique as = distinct (open_keys as)"

text \<open>A request that sets a status to \<^verbatim>\<open>open\<close>.\<close>

fun reopens :: "request \<Rightarrow> bool" where
  "reopens (Patch_status i st) = (status_of st = Some OPEN)"
| "reopens q = False"

text \<open>An alert before and after an operation: it is the same alert, and it is open
  afterwards only if it was open before.\<close>

definition not_reopened :: "alert \<Rightarrow> alert \<Rightarrow> bool" where
  "not_reopened a a' = (alert_id a' = alert_id a \<and> (status a' = OPEN \<longrightarrow> status a = OPEN))"

text \<open>A published document, a table of it with one row, and drafts about them.\<close>

definition fixture_doc :: document where
  "fixture_doc =
     \<lparr>doc_id = ''d1'', doc_name = ''Roadmap'', doc_updatedAt = 999340000,
      doc_published = True, doc_browserLink = ''https://coda.io/d/d1''\<rparr>"

definition fixture_row :: row where
  "fixture_row = \<lparr>row_id = ''r1'', row_values = Some [(''Notes'', JStr ''password: hunter2'')]\<rparr>"

definition fixture_table :: table where
  "fixture_table = \<lparr>table_id = ''t1'', table_name = ''Accounts'', table_rows = Some [Some fixture_row]\<rparr>"

definition fixture_finding :: finding where
  "fixture_finding =
     \<lparr>f_type = ''password'', f_name = ''Password'', f_severity = Critical, f_count = 1,
      f_samples = [''pass****r2'']\<rparr>"

definition doc_draft :: alertData where
  "doc_draft = public_draft fixture_doc"

definition row_draft :: alertData where
  "row_draft = sensitive_draft fixture_doc fixture_table fixture_row ''Notes'' fixture_finding"

definition quiet_env :: env where
  "quiet_env = fixture_env [fixture_doc] no_tables"

text \<open>
  The keys of the open alerts in a loop state.  A step of the scan \<open>grows\<close> when it
  keeps every open key, and a step is \<open>absorbed\<close> by an earlier one when, run in any
  state that has the open keys the earlier one left, it leaves the server as it is.
\<close>

definition okeys :: "scan_state \<Rightarrow> (alert_type \<times> string \<times> string) set" where
  "okeys sr = set (open_keys (alerts (fst sr)))"

definition grows :: "(scan_state \<Rightarrow> scan_state) \<Rightarrow> bool" where
  "grows L = (\<forall>sr. okeys sr \<subseteq> okeys (L sr))"

definition absorbed :: "(scan_state \<Rightarrow> scan_state) \<Rightarrow> (scan_state \<Rightarrow> scan_state) \<Rightarrow> bool" where
  "absorbed L1 L2 = (\<forall>sr t. okeys (L1 sr) \<subseteq> okeys t \<longrightarrow> fst (L2 t) = fst t)"







definition aging_doc :: document where
  "aging_doc =
     \<lparr>doc_id = ''d3'', doc_name = ''Notes'', doc_updatedAt = 999580000,
      doc_published = False, doc_browserLink = ''https://coda.io/d/d3''\<rparr>"

definition aging_env :: env where
  "aging_env = fixture_env [aging_doc] no_tables"

definition card_row :: row where
  "card_row =
     \<lparr>row_id = ''r2'',
      row_values = Some [(''Card'', JNum 4111111111111111), (''Notes'', JStr ''password: hunter2'')]\<rparr>"

definition card_table :: table where
  "card_table = \<lparr>table_id = ''t1'', table_name = ''Accounts'', table_rows = Some [Some card_row]\<rparr>"

definition table_env :: env where
  "table_env = fixture_env [fixture_doc] (\<lambda>d. Items (Some [Some card_table]))"


section \<open>Properties\<close>

subsection \<open>The order of the alert list\<close>













subsection \<open>The store's operations\<close>

lemma find_alert_has_id: "find_alert i s = Some a \<Longrightarrow> has_id i a \<and> a \<in> set (alerts s)"
  by (auto simp: find_alert_def find_Some_iff)

lemma length_update_first [simp]: "length (update_first P f xs) = length xs"
  by (induction xs) auto

lemma update_first_all2:
  "(\<And>x. R x x) \<Longrightarrow> (\<And>x. R x (f x)) \<Longrightarrow> list_all2 R xs (update_first P f xs)"
  by (induction xs) (auto simp: list_all2_refl)

lemma find_update_first:
  "find P xs = Some a \<Longrightarrow> P (f a) \<Longrightarrow> find P (update_first P f xs) = Some (f a)"
  by (induction xs) (auto split: if_splits)

lemma delete_row_alerts: "alerts (snd (deleteRowFromCoda e d t r s)) = alerts s"
  by (simp add: deleteRowFromCoda_def)

lemma same_open_key: "same_open d a \<longleftrightarrow> key a = key d \<and> is_open a"
  by (auto simp: same_open_def key_def is_open_def)

lemma find_same_open_None: "find (same_open d) as = None \<longleftrightarrow> key d \<notin> set (open_keys as)"
  by (force simp: find_None_iff open_keys_def same_open_key image_iff)

lemma createAlert_hit:
  "key d \<in> set (open_keys (alerts s)) \<Longrightarrow> snd (createAlert e d s) = s"
  using find_same_open_None [of d "alerts s"]
  by (auto simp: createAlert_def split: option.splits)

lemma createAlert_miss:
  "key d \<notin> set (open_keys (alerts s)) \<Longrightarrow>
   \<exists>a. alerts (snd (createAlert e d s)) = alerts s @ [a] \<and> status a = OPEN \<and> key a = key d
       \<and> alert_id a = alertIdCounter s \<and> fst (createAlert e d s) = a"
  using find_same_open_None [of d "alerts s"]
  by (simp add: createAlert_def new_alert_def key_def)

lemma createAlert_open_keys:
  "set (open_keys (alerts (snd (createAlert e d s)))) = insert (key d) (set (open_keys (alerts s)))"
proof (cases "key d \<in> set (open_keys (alerts s))")
  case True
  then show ?thesis by (auto simp: createAlert_hit)
next
  case False
  from createAlert_miss [OF this, of e] obtain a where
    "alerts (snd (createAlert e d s)) = alerts s @ [a]" "status a = OPEN" "key a = key d"
    by blast
  then show ?thesis by (simp add: open_keys_def is_open_def)
qed

subsection \<open>Status changes\<close>

lemma not_reopened_refl: "list_all2 not_reopened xs xs"
  by (simp add: list_all2_refl not_reopened_def)

lemma not_reopened_trans: "not_reopened a b \<Longrightarrow> not_reopened b c \<Longrightarrow> not_reopened a c"
  by (auto simp: not_reopened_def)

lemma assign_status_not_reopened:
  "v \<noteq> OPEN \<Longrightarrow> list_all2 not_reopened (alerts s) (alerts (assign_status e i v s))"
  unfolding assign_status_def
  by (simp add: update_first_all2 not_reopened_def)

lemma remediate_not_reopened:
  "list_all2 not_reopened (alerts s) (alerts (snd (remediate e i action s)))"
proof (cases "find_alert i s")
  case None
  then show ?thesis by (simp add: remediate_def not_reopened_refl)
next
  case (Some a)
  obtain r s1 where d: "deleteRowFromCoda e (docId a) (tableId (metadata a)) (resourceId a) s = (r, s1)"
    by force
  then have s1: "alerts s1 = alerts s"
    using delete_row_alerts [of e "docId a" "tableId (metadata a)" "resourceId a" s] by simp
  have *: "\<And>v. v \<noteq> OPEN \<Longrightarrow> list_all2 not_reopened (alerts s) (alerts (assign_status e i v s1))"
    using assign_status_not_reopened [of _ s1 e i] s1 by simp
  show ?thesis
    using Some d s1 * assign_status_not_reopened [of _ s e i]
    by (cases r) (simp_all add: remediate_def not_reopened_refl)
qed

lemma not_reopened_take_trans:
  assumes "list_all2 not_reopened xs (take (length xs) ys)" "length xs \<le> length ys"
    and "list_all2 not_reopened ys (take (length ys) zs)" "length ys \<le> length zs"
  shows "list_all2 not_reopened xs (take (length xs) zs)"
proof -
  have "list_all2 not_reopened (take (length xs) ys) (take (length xs) (take (length ys) zs))"
    using assms(3) by (rule list_all2_takeI)
  moreover have "take (length xs) (take (length ys) zs) = take (length xs) zs"
    using assms(2) by (simp add: min_def)
  ultimately have b: "list_all2 not_reopened (take (length xs) ys) (take (length xs) zs)"
    by simp
  show ?thesis
    by (rule list_all2_trans [OF not_reopened_trans assms(1) b])
qed

lemma createAlert_keeps:
  "list_all2 not_reopened (alerts s) (take (length (alerts s)) (alerts (snd (createAlert e d s)))) \<and>
   length (alerts s) \<le> length (alerts (snd (createAlert e d s)))"
proof (cases "key d \<in> set (open_keys (alerts s))")
  case True
  then show ?thesis by (simp add: createAlert_hit not_reopened_refl)
next
  case False
  from createAlert_miss [OF this, of e] obtain a where
    "alerts (snd (createAlert e d s)) = alerts s @ [a]" by blast
  then show ?thesis by (simp add: not_reopened_refl)
qed

lemma patch_status_keeps:
  assumes "status_of st \<noteq> Some OPEN"
  shows "list_all2 not_reopened (alerts s) (alerts (snd (patch_status e i st s)))"
proof (cases "find_alert i s")
  case None
  then show ?thesis by (simp add: patch_status_def not_reopened_refl)
next
  case (Some a)
  show ?thesis
  proof (cases "status_of st")
    case None
    with Some show ?thesis by (simp add: patch_status_def not_reopened_refl)
  next
    case (Some v)
    with assms have "v \<noteq> OPEN" by simp
    with Some \<open>find_alert i s = Some a\<close> show ?thesis
      by (simp add: patch_status_def assign_status_not_reopened)
  qed
qed

lemma handle_keeps:
  assumes "\<not> reopens q"
  shows "list_all2 not_reopened (alerts s) (take (length (alerts s)) (alerts (handle e q s))) \<and>
         length (alerts s) \<le> length (alerts (handle e q s))"
proof (cases q)
  case (Create d)
  then show ?thesis using createAlert_keeps [of s e d] by simp
next
  case (Patch_status i st)
  with assms have "list_all2 not_reopened (alerts s) (alerts (snd (patch_status e i st s)))"
    by (simp add: patch_status_keeps)
  then show ?thesis
    using Patch_status list_all2_lengthD [of not_reopened "alerts s" "alerts (snd (patch_status e i st s))"]
    by simp
next
  case (Remediate i action)
  have "list_all2 not_reopened (alerts s) (alerts (snd (remediate e i action s)))"
    by (rule remediate_not_reopened)
  then show ?thesis
    using Remediate list_all2_lengthD [of not_reopened "alerts s" "alerts (snd (remediate e i action s))"]
    by simp
qed

lemma handle_all_keeps:
  "\<forall>q\<in>set qs. \<not> reopens q \<Longrightarrow>
   list_all2 not_reopened (alerts s) (take (length (alerts s)) (alerts (handle_all e qs s))) \<and>
   length (alerts s) \<le> length (alerts (handle_all e qs s))"
proof (induction qs arbitrary: s)
  case Nil
  show ?case by (simp add: not_reopened_refl)
next
  case (Cons q qs)
  have q: "\<not> reopens q" and qs: "\<forall>q\<in>set qs. \<not> reopens q"
    using Cons.prems by simp_all
  have a1: "list_all2 not_reopened (alerts s) (take (length (alerts s)) (alerts (handle e q s)))"
    and a2: "length (alerts s) \<le> length (alerts (handle e q s))"
    using handle_keeps [OF q, of s e] by blast+
  have b1: "list_all2 not_reopened (alerts (handle e q s))
              (take (length (alerts (handle e q s))) (alerts (handle_all e qs (handle e q s))))"
    and b2: "length (alerts (handle e q s)) \<le> length (alerts (handle_all e qs (handle e q s)))"
    using Cons.IH [OF qs, of "handle e q s"] by blast+
  have "list_all2 not_reopened (alerts s) (take (length (alerts s)) (alerts (handle_all e qs (handle e q s))))"
    by (rule not_reopened_take_trans [OF a1 a2 b1 b2])
  moreover have "length (alerts s) \<le> length (alerts (handle_all e qs (handle e q s)))"
    using a2 b2 by (rule le_trans)
  ultimately show ?case by simp
qed

lemma patch_status_sets:
  assumes "find_alert i s = Some a" "status_of st = Some v"
  shows "find_alert i (snd (patch_status e i st s)) =
           Some (a\<lparr>status := v, updatedAt := clock e (ticks s)\<rparr>)"
proof -
  have "has_id i a" using assms(1) find_alert_has_id by blast
  then have "has_id i (a\<lparr>status := v, updatedAt := clock e (ticks s)\<rparr>)"
    by (simp add: has_id_def)
  then show ?thesis
    using assms find_update_first [of "has_id i" "alerts s" a]
    by (simp add: patch_status_def assign_status_def find_alert_def)
qed

text \<open>
  C3, as amended.  Under any sequence of alert creations, remediation actions and
  status-sets in which no status-set asks for the status open, every alert already stored
  keeps its place and its id and is open afterwards only if it was open before: nothing but
  a status-set to open returns an alert to open.  A direct status-set on an existing alert
  stores whichever of the four statuses was asked for, whatever the alert's status was.
\<close>

theorem status_changes:
  "((\<forall>q\<in>set qs. \<not> reopens q) \<longrightarrow>
      list_all2 not_reopened (alerts s) (take (length (alerts s)) (alerts (handle_all e qs s)))) \<and>
   (find_alert i s = Some a \<longrightarrow> status_of st = Some v \<longrightarrow>
      find_alert i (snd (patch_status e i st s)) =
        Some (a\<lparr>status := v, updatedAt := clock e (ticks s)\<rparr>))"
  using handle_all_keeps patch_status_sets by blast

theorem status_changes_witness:
  "list_all2 not_reopened (alerts (handle quiet_env (Create doc_draft) initial_server))
     (take (length (alerts (handle quiet_env (Create doc_draft) initial_server)))
        (alerts (handle_all quiet_env
           [Remediate (Num 1) ''acknowledge'', Create doc_draft,
            Patch_status (Num 1) (JStr ''remediated''), Remediate (Num 2) ''ignore'']
           (handle quiet_env (Create doc_draft) initial_server)))) \<and>
   find_alert (Num 1)
     (snd (patch_status quiet_env (Num 1) (JStr ''ignored'')
        (handle quiet_env (Create doc_draft) initial_server))) =
     Some ((fst (createAlert quiet_env doc_draft initial_server))
             \<lparr>status := IGNORED, updatedAt := clock quiet_env 2\<rparr>)"
proof -
  have q: "\<forall>q\<in>set [Remediate (Num 1) ''acknowledge'', Create doc_draft,
                     Patch_status (Num 1) (JStr ''remediated''), Remediate (Num 2) ''ignore''].
             \<not> reopens q"
    by code_simp
  have f: "find_alert (Num 1) (handle quiet_env (Create doc_draft) initial_server) =
             Some (fst (createAlert quiet_env doc_draft initial_server))"
    by code_simp
  have v: "status_of (JStr ''ignored'') = Some IGNORED"
    by code_simp
  have t: "ticks (handle quiet_env (Create doc_draft) initial_server) = 2"
    by code_simp
  show ?thesis
    using status_changes [of
        "[Remediate (Num 1) ''acknowledge'', Create doc_draft,
          Patch_status (Num 1) (JStr ''remediated''), Remediate (Num 2) ''ignore'']"
        "handle quiet_env (Create doc_draft) initial_server" quiet_env "Num 1"
        "fst (createAlert quiet_env doc_draft initial_server)" "JStr ''ignored''" IGNORED] q f v t
    by simp
qed

theorem status_moves_back_counterexample:
  "map status (alerts (handle_all quiet_env
      [Create doc_draft, Remediate (Num 1) ''acknowledge''] initial_server)) = [ACKNOWLEDGED] \<and>
   map status (alerts (handle_all quiet_env
      [Create doc_draft, Remediate (Num 1) ''acknowledge'', Patch_status (Num 1) (JStr ''open'')]
      initial_server)) = [OPEN] \<and>
   map status (alerts (handle_all quiet_env
      [Create doc_draft, Remediate (Num 1) ''acknowledge'', Remediate (Num 1) ''ignore'']
      initial_server)) = [IGNORED]"
  by code_simp

subsection \<open>One open alert for each key\<close>

lemma createAlert_open_unique:
  "open_unique (alerts s) \<Longrightarrow> open_unique (alerts (snd (createAlert e d s)))"
proof (cases "key d \<in> set (open_keys (alerts s))")
  case True
  assume "open_unique (alerts s)"
  with True show ?thesis by (simp add: createAlert_hit)
next
  case False
  assume u: "open_unique (alerts s)"
  from createAlert_miss [OF False, of e] obtain a where
    "alerts (snd (createAlert e d s)) = alerts s @ [a]" "status a = OPEN" "key a = key d"
    by blast
  with u False show ?thesis by (simp add: open_unique_def open_keys_def is_open_def)
qed

lemma open_keys_update_first_subset:
  "(\<And>x. \<not> is_open (f x)) \<Longrightarrow>
   set (open_keys (update_first P f xs)) \<subseteq> set (open_keys xs)"
  by (induction xs) (auto simp: open_keys_def)

lemma open_unique_update_first:
  assumes "\<And>x. \<not> is_open (f x)" "open_unique xs"
  shows "open_unique (update_first P f xs)"
  using assms(2)
proof (induction xs)
  case Nil
  then show ?case by simp
next
  case (Cons x xs)
  have tl: "open_unique xs"
    using Cons.prems by (auto simp: open_unique_def open_keys_def split: if_splits)
  show ?case
  proof (cases "P x")
    case True
    with tl assms(1) show ?thesis by (simp add: open_unique_def open_keys_def)
  next
    case False
    have "set (open_keys (update_first P f xs)) \<subseteq> set (open_keys xs)"
      using assms(1) by (rule open_keys_update_first_subset)
    with False Cons.IH [OF tl] Cons.prems show ?thesis
      by (auto simp: open_unique_def open_keys_def)
  qed
qed

lemma assign_status_open_unique:
  "v \<noteq> OPEN \<Longrightarrow> open_unique (alerts s) \<Longrightarrow> open_unique (alerts (assign_status e i v s))"
  by (simp add: assign_status_def open_unique_update_first is_open_def)

lemma handle_open_unique:
  assumes "\<not> reopens q" "open_unique (alerts s)"
  shows "open_unique (alerts (handle e q s))"
proof (cases q)
  case (Create d)
  with assms show ?thesis by (simp add: createAlert_open_unique)
next
  case (Patch_status i st)
  with assms show ?thesis
    by (auto simp: patch_status_def assign_status_open_unique split: option.splits)
next
  case (Remediate i action)
  show ?thesis
  proof (cases "find_alert i s")
    case None
    with Remediate assms show ?thesis by (simp add: remediate_def)
  next
    case (Some a)
    obtain r s1 where d: "deleteRowFromCoda e (docId a) (tableId (metadata a)) (resourceId a) s = (r, s1)"
      by force
    then have s1: "alerts s1 = alerts s"
      using delete_row_alerts [of e "docId a" "tableId (metadata a)" "resourceId a" s] by simp
    have *: "\<And>v. v \<noteq> OPEN \<Longrightarrow> open_unique (alerts (assign_status e i v s1))"
      using assign_status_open_unique [of _ s1 e i] s1 assms(2) by simp
    show ?thesis
      using Some d s1 * assign_status_open_unique [of _ s e i] assms(2) Remediate
      by (cases r) (simp_all add: remediate_def)
  qed
qed

lemma handle_all_open_unique:
  "\<forall>q\<in>set qs. \<not> reopens q \<Longrightarrow> open_unique (alerts s) \<Longrightarrow>
   open_unique (alerts (handle_all e qs s))"
  by (induction qs arbitrary: s) (auto simp: handle_open_unique)

text \<open>
  C4, as amended.  Starting from a store with at most one open alert for each
  (type, docId, resourceId), any sequence of alert creations, remediations and status-sets
  to a status other than open leaves at most one open alert for each triple, whatever the
  metadata of the drafts; and when no open alert has a draft's triple (alerts with that
  triple that have left the open state do not count), creation appends a fresh open alert
  with that triple.
\<close>

theorem open_alert_unique:
  assumes "open_unique (alerts s)" and "\<forall>q\<in>set qs. \<not> reopens q"
  shows "open_unique (alerts (handle_all e qs s)) \<and>
         (key d \<notin> set (open_keys (alerts (handle_all e qs s))) \<longrightarrow>
            (\<exists>a. alerts (snd (createAlert e d (handle_all e qs s))) =
                    alerts (handle_all e qs s) @ [a] \<and>
                  status a = OPEN \<and> key a = key d))"
  using assms handle_all_open_unique [of qs s e] createAlert_miss [of d "handle_all e qs s" e]
  by blast

theorem open_alert_unique_witness:
  "open_unique (alerts (handle_all quiet_env
      [Create doc_draft, Remediate (Num 1) ''acknowledge''] initial_server)) \<and>
   (\<exists>a. alerts (snd (createAlert quiet_env doc_draft
            (handle_all quiet_env [Create doc_draft, Remediate (Num 1) ''acknowledge''] initial_server))) =
          alerts (handle_all quiet_env
            [Create doc_draft, Remediate (Num 1) ''acknowledge''] initial_server) @ [a] \<and>
        status a = OPEN \<and> key a = key doc_draft)"
proof -
  have u: "open_unique (alerts initial_server)"
    by (simp add: initial_server_def open_unique_def open_keys_def)
  have q: "\<forall>q\<in>set [Create doc_draft, Remediate (Num 1) ''acknowledge'']. \<not> reopens q"
    by simp
  have k: "key doc_draft \<notin> set (open_keys (alerts (handle_all quiet_env
      [Create doc_draft, Remediate (Num 1) ''acknowledge''] initial_server)))"
    by code_simp
  show ?thesis
    using open_alert_unique [OF u q, of quiet_env doc_draft] k by blast
qed

theorem two_open_alerts_counterexample:
  "map key (alerts (handle_all quiet_env
      [Create doc_draft, Remediate (Num 1) ''acknowledge'', Create doc_draft,
       Patch_status (Num 1) (JStr ''open'')] initial_server)) =
     [(PUBLIC_DOCUMENT, ''d1'', ''d1''), (PUBLIC_DOCUMENT, ''d1'', ''d1'')] \<and>
   map status (alerts (handle_all quiet_env
      [Create doc_draft, Remediate (Num 1) ''acknowledge'', Create doc_draft,
       Patch_status (Num 1) (JStr ''open'')] initial_server)) = [OPEN, OPEN] \<and>
   \<not> open_unique (alerts (handle_all quiet_env
      [Create doc_draft, Remediate (Num 1) ''acknowledge'', Create doc_draft,
       Patch_status (Num 1) (JStr ''open'')] initial_server))"
  by code_simp

subsection \<open>The delete remediation\<close>

text \<open>
  C5.  For an existing alert, the delete action on a document alert answers
  \<open>success = False\<close> and returns the server as it was, with no delete request sent; on
  a row alert whose delete request fails with message \<open>err\<close> it answers
  \<open>success = False\<close> with the message \<^verbatim>\<open>Failed to delete: \<close> followed by \<open>err\<close>, and
  the only change to the server is the request sent: every alert is as it was.
\<close>

theorem delete_fails_without_change:
  assumes "find_alert i s = Some a"
  shows "(resourceType a = Document_resource \<longrightarrow>
           remediate e i ''delete'' s =
             (Json \<lparr>success = False, message = ''Delete action only supported for table rows''\<rparr>, s))
       \<and> (resourceType a = Row_resource \<longrightarrow>
           delete_response e (docId a) (tableId (metadata a)) (resourceId a) = Some err \<longrightarrow>
           remediate e i ''delete'' s =
             (Json \<lparr>success = False, message = ''Failed to delete: '' @ err\<rparr>,
              s\<lparr>delete_requests := delete_requests s @ [(docId a, tableId (metadata a), resourceId a)]\<rparr>))"
  using assms by (simp add: remediate_def deleteRowFromCoda_def)

theorem delete_fails_without_change_witness:
  "remediate quiet_env (Num 1) ''delete''
      (handle_all quiet_env [Create doc_draft, Create row_draft] initial_server) =
     (Json \<lparr>success = False, message = ''Delete action only supported for table rows''\<rparr>,
      handle_all quiet_env [Create doc_draft, Create row_draft] initial_server) \<and>
   remediate quiet_env (Num 2) ''delete''
      (handle_all quiet_env [Create doc_draft, Create row_draft] initial_server) =
     (Json \<lparr>success = False, message = ''Failed to delete: Request failed with status code 404''\<rparr>,
      (handle_all quiet_env [Create doc_draft, Create row_draft] initial_server)
        \<lparr>delete_requests := [(''d1'', ''t1'', ''r1'')]\<rparr>)"
proof -
  let ?s = "handle_all quiet_env [Create doc_draft, Create row_draft] initial_server"
  let ?a = "fst (createAlert quiet_env doc_draft initial_server)"
  let ?b = "fst (createAlert quiet_env row_draft (handle quiet_env (Create doc_draft) initial_server))"
  have a: "find_alert (Num 1) ?s = Some ?a" by code_simp
  have b: "find_alert (Num 2) ?s = Some ?b" by code_simp
  have ra: "resourceType ?a = Document_resource" by code_simp
  have rb: "resourceType ?b = Row_resource" by code_simp
  have ids: "docId ?b = ''d1''" "tableId (metadata ?b) = ''t1''" "resourceId ?b = ''r1''"
    by code_simp+
  have d: "delete_response quiet_env ''d1'' ''t1'' ''r1'' = Some ''Request failed with status code 404''"
    by code_simp
  have n: "delete_requests ?s = []" by code_simp
  show ?thesis
    using delete_fails_without_change [OF a, of quiet_env] ra
      delete_fails_without_change [OF b, of quiet_env "''Request failed with status code 404''"] rb ids d n
    by simp
qed

subsection \<open>The Pattern Matcher\<close>

lemma rel_index_last2: "rel_index n (- 2) = n - 2"
  by (simp add: rel_index_def max_def) linarith

lemma redact_eq: "redact m = take 4 m @ ''****'' @ drop (length m - 2) m"
proof -
  have "take (min 4 (length m)) m = take 4 m"
    by (simp add: min_def)
  then show ?thesis
    by (simp add: redact_def js_slice_def js_slice_from_def rel_index_last2 Let_def)
       (simp add: rel_index_def)
qed

lemma length_redact: "length (redact m) = min 4 (length m) + 4 + min 2 (length m)"
  by (simp add: redact_eq)

lemma redact_fixed:
  "redact m = m \<longleftrightarrow> length m = 10 \<and> take 4 (drop 4 m) = ''****''"
proof
  assume eq: "redact m = m"
  then have "length (redact m) = length m" by simp
  then have len: "length m = 10" by (simp add: length_redact)
  have "take 4 (drop 4 (redact m)) = ''****''"
    using len by (simp add: redact_eq)
  with eq len show "length m = 10 \<and> take 4 (drop 4 m) = ''****''" by simp
next
  assume a: "length m = 10 \<and> take 4 (drop 4 m) = ''****''"
  then have "m = take 4 m @ take 4 (drop 4 m) @ drop 8 m"
    by (metis append_take_drop_id drop_drop numeral_Bit0 take_add take_drop)
  with a show "redact m = m" by (simp add: redact_eq)
qed

lemma js_slice_first2: "js_slice xs 0 2 = take 2 xs"
proof -
  have "take (min 2 (length xs)) xs = take 2 xs"
    by (simp add: min_def)
  then show ?thesis
    by (simp add: js_slice_def rel_index_def Let_def)
qed

lemma scanEntry_samples:
  "f \<in> set (scanEntry t c) \<Longrightarrow>
   \<exists>ms. js_match (pattern (snd c)) (flag_i (snd c)) t = Some ms \<and>
        f_count f = length ms \<and> f_samples f = map redact (take 2 ms)"
  by (cases "js_match (pattern (snd c)) (flag_i (snd c)) t")
     (simp_all add: scanEntry_def js_slice_first2)

lemma scanText_samples:
  assumes "f \<in> set (scanText v)" "x \<in> set (f_samples f)"
  shows "\<exists>t c ms m. v = JStr t \<and> c \<in> set SENSITIVE_PATTERNS \<and>
           js_match (pattern (snd c)) (flag_i (snd c)) t = Some ms \<and>
           m \<in> set (take 2 ms) \<and> x = take 4 m @ ''****'' @ drop (length m - 2) m \<and>
           (x = m \<longleftrightarrow> length m = 10 \<and> take 4 (drop 4 m) = ''****'')"
proof -
  from assms(1) obtain t where v: "v = JStr t"
    by (cases v) (auto simp: scanText_def)
  with assms(1) obtain c where c: "c \<in> set SENSITIVE_PATTERNS" "f \<in> set (scanEntry t c)"
    by (auto simp: scanText_def split: if_splits)
  from scanEntry_samples [OF c(2)] obtain ms where
    ms: "js_match (pattern (snd c)) (flag_i (snd c)) t = Some ms"
        "f_samples f = map redact (take 2 ms)"
    by blast
  with assms(2) obtain m where m: "m \<in> set (take 2 ms)" "x = redact m"
    by auto
  have "x = take 4 m @ ''****'' @ drop (length m - 2) m"
    using m(2) by (simp only: redact_eq)
  moreover have "x = m \<longleftrightarrow> length m = 10 \<and> take 4 (drop 4 m) = ''****''"
    using m(2) redact_fixed [of m] by simp
  ultimately show ?thesis
    using v c(1) ms(1) m(1) by blast
qed

lemma scan_password_hunter2:
  "scanText (JStr ''password: hunter2'') =
     [\<lparr>f_type = ''password'', f_name = ''Password'', f_severity = Critical, f_count = 1,
       f_samples = [''pass****r2'']\<rparr>]"
  by code_simp

text \<open>
  C7, as amended.  Every sample of every finding of the Pattern Matcher comes from one
  of the first two matches of a detector of the registry on the text, and equals the
  first 4 characters of that match, then \<^verbatim>\<open>****\<close>, then its last 2 characters; it
  differs from the match itself except when the match is exactly 10 characters long with
  \<^verbatim>\<open>****\<close> as its fifth to eighth characters.  The text \<^verbatim>\<open>password: hunter2\<close>
  yields exactly one finding: password, critical, count 1, sample \<^verbatim>\<open>pass****r2\<close>.
\<close>

theorem samples_are_redacted:
  "(f \<in> set (scanText v) \<longrightarrow> x \<in> set (f_samples f) \<longrightarrow>
      (\<exists>t c ms m. v = JStr t \<and> c \<in> set SENSITIVE_PATTERNS \<and>
         js_match (pattern (snd c)) (flag_i (snd c)) t = Some ms \<and>
         m \<in> set (take 2 ms) \<and> x = take 4 m @ ''****'' @ drop (length m - 2) m \<and>
         (x = m \<longleftrightarrow> length m = 10 \<and> take 4 (drop 4 m) = ''****''))) \<and>
   scanText (JStr ''password: hunter2'') =
     [\<lparr>f_type = ''password'', f_name = ''Password'', f_severity = Critical, f_count = 1,
       f_samples = [''pass****r2'']\<rparr>]"
  using scanText_samples scan_password_hunter2 by blast

theorem samples_are_redacted_witness:
  "(\<exists>t c ms m. JStr ''password: hunter2'' = JStr t \<and> c \<in> set SENSITIVE_PATTERNS \<and>
         js_match (pattern (snd c)) (flag_i (snd c)) t = Some ms \<and>
         m \<in> set (take 2 ms) \<and> ''pass****r2'' = take 4 m @ ''****'' @ drop (length m - 2) m \<and>
         (''pass****r2'' = m \<longleftrightarrow> length m = 10 \<and> take 4 (drop 4 m) = ''****'')) \<and>
   scanText (JStr ''password: hunter2'') =
     [\<lparr>f_type = ''password'', f_name = ''Password'', f_severity = Critical, f_count = 1,
       f_samples = [''pass****r2'']\<rparr>]"
proof -
  have f: "fixture_finding \<in> set (scanText (JStr ''password: hunter2''))"
    by (simp add: scan_password_hunter2 fixture_finding_def)
  have x: "''pass****r2'' \<in> set (f_samples fixture_finding)"
    by (simp add: fixture_finding_def)
  show ?thesis
    using samples_are_redacted [of fixture_finding "JStr ''password: hunter2''" "''pass****r2''"] f x
    by blast
qed

theorem sample_is_raw_match_counterexample:
  "js_match password_re True ''pwd=****ef'' = Some [''pwd=****ef''] \<and>
   scanText (JStr ''pwd=****ef'') =
     [\<lparr>f_type = ''password'', f_name = ''Password'', f_severity = Critical, f_count = 1,
       f_samples = [''pwd=****ef'']\<rparr>]"
  by code_simp

subsection \<open>Scanning again\<close>


lemma growsD: "grows L \<Longrightarrow> okeys sr \<subseteq> okeys (L sr)"
  unfolding grows_def by blast

lemma absorbedD: "absorbed L1 L2 \<Longrightarrow> okeys (L1 sr) \<subseteq> okeys t \<Longrightarrow> fst (L2 t) = fst t"
  unfolding absorbed_def by blast

lemma growsI: "(\<And>sr. okeys sr \<subseteq> okeys (L sr)) \<Longrightarrow> grows L"
  unfolding grows_def by blast

lemma absorbedI: "(\<And>sr t. okeys (L1 sr) \<subseteq> okeys t \<Longrightarrow> fst (L2 t) = fst t) \<Longrightarrow> absorbed L1 L2"
  unfolding absorbed_def by blast

lemma okeys_fst: "fst a = fst b \<Longrightarrow> okeys a = okeys b"
  by (simp add: okeys_def)

lemma grows_id: "grows (\<lambda>sr. sr)"
  by (rule growsI) simp

lemma absorbed_id: "absorbed L (\<lambda>sr. sr)"
  by (rule absorbedI) simp

lemma grows_comp: "grows f \<Longrightarrow> grows g \<Longrightarrow> grows (\<lambda>sr. g (f sr))"
  by (rule growsI) (meson growsD subset_trans)

lemma absorbed_comp:
  assumes "grows g1" "absorbed f1 f2" "absorbed g1 g2"
  shows "absorbed (\<lambda>sr. g1 (f1 sr)) (\<lambda>sr. g2 (f2 sr))"
proof (rule absorbedI)
  fix sr t
  assume a: "okeys (g1 (f1 sr)) \<subseteq> okeys t"
  have "okeys (f1 sr) \<subseteq> okeys (g1 (f1 sr))"
    using assms(1) by (rule growsD)
  with a have "okeys (f1 sr) \<subseteq> okeys t" by blast
  then have f: "fst (f2 t) = fst t"
    using assms(2) absorbedD by blast
  then have "okeys (f2 t) = okeys t" by (rule okeys_fst)
  with a have "okeys (g1 (f1 sr)) \<subseteq> okeys (f2 t)" by simp
  then have "fst (g2 (f2 t)) = fst (f2 t)"
    using assms(3) absorbedD by blast
  with f show "fst (g2 (f2 t)) = fst t" by simp
qed

lemma okeys_create_and_count: "okeys (create_and_count e d sr) = insert (key d) (okeys sr)"
  by (simp add: okeys_def create_and_count_def createAlert_open_keys)

lemma grows_create: "grows (create_and_count e d)"
  by (rule growsI) (auto simp: okeys_create_and_count)

lemma absorbed_create:
  assumes "key d = key d'"
  shows "absorbed (create_and_count e d) (create_and_count e' d')"
proof (rule absorbedI)
  fix sr t
  assume a: "okeys (create_and_count e d sr) \<subseteq> okeys t"
  have "key d \<in> okeys (create_and_count e d sr)"
    by (simp add: okeys_create_and_count)
  with a assms have "key d' \<in> okeys t" by auto
  then have "key d' \<in> set (open_keys (alerts (fst t)))"
    by (simp add: okeys_def)
  then show "fst (create_and_count e' d' t) = fst t"
    by (simp add: create_and_count_def createAlert_hit)
qed

lemma grows_scanFindings: "grows (scanFindings e doc tbl rw c fs)"
proof (induction fs)
  case Nil
  show ?case by (rule growsI) simp
next
  case (Cons f fs)
  have "grows (\<lambda>sr. scanFindings e doc tbl rw c fs
                 (create_and_count e (sensitive_draft doc tbl rw c f) sr))"
    by (rule grows_comp [OF grows_create Cons])
  then show ?case by (simp add: grows_def)
qed

lemma absorbed_scanFindings:
  "absorbed (scanFindings e doc tbl rw c fs) (scanFindings e' doc tbl rw c fs)"
proof (induction fs)
  case Nil
  show ?case by (rule absorbedI) simp
next
  case (Cons f fs)
  have "absorbed
     (\<lambda>sr. scanFindings e doc tbl rw c fs (create_and_count e (sensitive_draft doc tbl rw c f) sr))
     (\<lambda>sr. scanFindings e' doc tbl rw c fs (create_and_count e' (sensitive_draft doc tbl rw c f) sr))"
    by (rule absorbed_comp [OF grows_scanFindings absorbed_create Cons]) simp
  then show ?case by (simp add: absorbed_def)
qed

lemma grows_scanColumns: "grows (scanColumns e doc tbl rw cols)"
proof (induction cols)
  case Nil
  show ?case by (rule growsI) simp
next
  case (Cons c cols)
  obtain n v where c: "c = (n, v)" by (cases c)
  have "grows (\<lambda>sr. scanColumns e doc tbl rw cols
                 (scanFindings e doc tbl rw n (scanText (JStr (js_String v))) sr))"
    by (rule grows_comp [OF grows_scanFindings Cons])
  then show ?case by (simp add: grows_def c)
qed

lemma absorbed_scanColumns:
  "absorbed (scanColumns e doc tbl rw cols) (scanColumns e' doc tbl rw cols)"
proof (induction cols)
  case Nil
  show ?case by (rule absorbedI) simp
next
  case (Cons c cols)
  obtain n v where c: "c = (n, v)" by (cases c)
  have "absorbed
     (\<lambda>sr. scanColumns e doc tbl rw cols (scanFindings e doc tbl rw n (scanText (JStr (js_String v))) sr))
     (\<lambda>sr. scanColumns e' doc tbl rw cols (scanFindings e' doc tbl rw n (scanText (JStr (js_String v))) sr))"
    by (rule absorbed_comp [OF grows_scanColumns absorbed_scanFindings Cons])
  then show ?case by (simp add: absorbed_def c)
qed

lemma scanRows_outcome: "fst (scanRows e doc tbl rows sr) = fst (scanRows e' doc tbl rows t)"
proof (induction rows arbitrary: sr t)
  case Nil
  show ?case by simp
next
  case (Cons r rows)
  then show ?case by (cases r) simp_all
qed

lemma grows_scanRows: "grows (\<lambda>sr. snd (scanRows e doc tbl rows sr))"
proof (induction rows)
  case Nil
  show ?case by (rule growsI) simp
next
  case (Cons r rows)
  show ?case
  proof (cases r)
    case None
    then show ?thesis by (simp add: grows_def)
  next
    case (Some rw)
    have "grows (\<lambda>sr. snd (scanRows e doc tbl rows
            (scanColumns e doc tbl rw (case row_values rw of None \<Rightarrow> [] | Some vs \<Rightarrow> vs) sr)))"
      by (rule grows_comp [OF grows_scanColumns Cons])
    then show ?thesis by (simp add: grows_def Some)
  qed
qed

lemma absorbed_scanRows:
  "absorbed (\<lambda>sr. snd (scanRows e doc tbl rows sr)) (\<lambda>sr. snd (scanRows e' doc tbl rows sr))"
proof (induction rows)
  case Nil
  show ?case by (rule absorbedI) simp
next
  case (Cons r rows)
  show ?case
  proof (cases r)
    case None
    then show ?thesis by (simp add: absorbed_def)
  next
    case (Some rw)
    have "absorbed
       (\<lambda>sr. snd (scanRows e doc tbl rows
          (scanColumns e doc tbl rw (case row_values rw of None \<Rightarrow> [] | Some vs \<Rightarrow> vs) sr)))
       (\<lambda>sr. snd (scanRows e' doc tbl rows
          (scanColumns e' doc tbl rw (case row_values rw of None \<Rightarrow> [] | Some vs \<Rightarrow> vs) sr)))"
      by (rule absorbed_comp [OF grows_scanRows absorbed_scanColumns Cons])
    then show ?thesis by (simp add: absorbed_def Some)
  qed
qed


lemma grows_fst: "(\<And>sr. fst (L' sr) = fst (L sr)) \<Longrightarrow> grows L \<Longrightarrow> grows L'"
  by (rule growsI) (metis growsD okeys_fst)

lemma absorbed_fst:
  assumes "\<And>sr. fst (L1' sr) = fst (L1 sr)" "\<And>sr. fst (L2' sr) = fst (L2 sr)" "absorbed L1 L2"
  shows "absorbed L1' L2'"
proof (rule absorbedI)
  fix sr t
  assume "okeys (L1' sr) \<subseteq> okeys t"
  moreover have "okeys (L1' sr) = okeys (L1 sr)"
    using assms(1) by (rule okeys_fst)
  ultimately have "fst (L2 t) = fst t"
    using assms(3) absorbedD by auto
  then show "fst (L2' t) = fst t"
    using assms(2) by simp
qed

lemma scanTables_Some:
  "scanTables e doc (Some tbl # tables) sr =
     (case fst (scanRows e doc tbl (rows_of e doc tbl) sr) of
        Some err \<Rightarrow> scanRows e doc tbl (rows_of e doc tbl) sr
      | None \<Rightarrow> scanTables e doc tables (snd (scanRows e doc tbl (rows_of e doc tbl) sr)))"
  by (simp split: prod.splits option.splits)

lemma scanTables_outcome: "fst (scanTables e doc tables sr) = fst (scanTables e doc tables t)"
proof (induction tables arbitrary: sr t)
  case Nil
  show ?case by simp
next
  case (Cons tb tables)
  show ?case
  proof (cases tb)
    case None
    then show ?thesis by simp
  next
    case (Some tbl)
    have o: "fst (scanRows e doc tbl (rows_of e doc tbl) sr) = fst (scanRows e doc tbl (rows_of e doc tbl) t)"
      by (rule scanRows_outcome)
    show ?thesis
      unfolding Some scanTables_Some o [symmetric]
      using Cons [of "snd (scanRows e doc tbl (rows_of e doc tbl) sr)"
                     "snd (scanRows e doc tbl (rows_of e doc tbl) t)"] o
      by (simp split: option.splits)
  qed
qed

lemma grows_scanTables: "grows (\<lambda>sr. snd (scanTables e doc tables sr))"
proof (induction tables)
  case Nil
  show ?case by (rule growsI) simp
next
  case (Cons tb tables)
  show ?case
  proof (cases tb)
    case None
    then show ?thesis by (simp add: grows_def)
  next
    case (Some tbl)
    let ?R = "rows_of e doc tbl"
    show ?thesis
    proof (cases "fst (scanRows e doc tbl ?R undefined)")
      case None
      then have n: "\<And>sr. fst (scanRows e doc tbl ?R sr) = None"
        using scanRows_outcome [of e doc tbl ?R _ e undefined] by simp
      have "grows (\<lambda>sr. snd (scanTables e doc tables (snd (scanRows e doc tbl ?R sr))))"
        by (rule grows_comp [OF grows_scanRows Cons])
      then show ?thesis
        unfolding Some scanTables_Some by (simp add: n)
    next
      case (Some err)
      then have n: "\<And>sr. fst (scanRows e doc tbl ?R sr) = Some err"
        using scanRows_outcome [of e doc tbl ?R _ e undefined] by simp
      show ?thesis
        unfolding \<open>tb = Some tbl\<close> scanTables_Some using grows_scanRows [of e doc tbl ?R]
        by (simp add: n)
    qed
  qed
qed

lemma absorbed_scanTables:
  "absorbed (\<lambda>sr. snd (scanTables e doc tables sr)) (\<lambda>sr. snd (scanTables e doc tables sr))"
proof (induction tables)
  case Nil
  show ?case by (rule absorbedI) simp
next
  case (Cons tb tables)
  show ?case
  proof (cases tb)
    case None
    then show ?thesis by (simp add: absorbed_def)
  next
    case (Some tbl)
    let ?R = "rows_of e doc tbl"
    show ?thesis
    proof (cases "fst (scanRows e doc tbl ?R undefined)")
      case None
      then have n: "\<And>sr. fst (scanRows e doc tbl ?R sr) = None"
        using scanRows_outcome [of e doc tbl ?R _ e undefined] by simp
      have "absorbed (\<lambda>sr. snd (scanTables e doc tables (snd (scanRows e doc tbl ?R sr))))
                     (\<lambda>sr. snd (scanTables e doc tables (snd (scanRows e doc tbl ?R sr))))"
        by (rule absorbed_comp [OF grows_scanTables absorbed_scanRows Cons])
      then show ?thesis
        unfolding Some scanTables_Some by (simp add: n)
    next
      case (Some err)
      then have n: "\<And>sr. fst (scanRows e doc tbl ?R sr) = Some err"
        using scanRows_outcome [of e doc tbl ?R _ e undefined] by simp
      show ?thesis
        unfolding \<open>tb = Some tbl\<close> scanTables_Some using absorbed_scanRows [of e doc tbl ?R e]
        by (simp add: n)
    qed
  qed
qed

lemma fst_content_rule:
  "fst (content_rule e doc sr) = fst (snd (scanTables e doc (fetchTablesFromCoda e (doc_id doc)) sr))"
  by (simp add: content_rule_def split: prod.splits option.splits)

lemma grows_content_rule: "grows (content_rule e doc)"
  by (rule grows_fst [OF fst_content_rule grows_scanTables])

lemma absorbed_content_rule: "absorbed (content_rule e doc) (content_rule e doc)"
  by (rule absorbed_fst [OF fst_content_rule fst_content_rule absorbed_scanTables])

lemma grows_exposure_rule: "grows (exposure_rule e doc)"
  using grows_create [of e "public_draft doc"] by (simp add: exposure_rule_def grows_def)

lemma absorbed_exposure_rule: "absorbed (exposure_rule e doc) (exposure_rule e doc)"
  using absorbed_create [of "public_draft doc" "public_draft doc" e e]
  by (simp add: exposure_rule_def absorbed_def)

lemma grows_staleness_rule: "grows (staleness_rule e now doc)"
  using grows_create [of e "unused_draft doc (now - doc_updatedAt doc)"]
  by (simp add: staleness_rule_def grows_def Let_def)

lemma key_unused_draft: "key (unused_draft doc x) = (UNUSED_DOCUMENT, doc_id doc, doc_id doc)"
  by (simp add: key_def unused_draft_def)

lemma absorbed_staleness_rule:
  assumes "now2 - doc_updatedAt doc \<ge> TEN_MINUTES_MS \<longrightarrow> now1 - doc_updatedAt doc \<ge> TEN_MINUTES_MS"
  shows "absorbed (staleness_rule e now1 doc) (staleness_rule e now2 doc)"
proof (cases "now2 - doc_updatedAt doc \<ge> TEN_MINUTES_MS")
  case True
  with assms have "now1 - doc_updatedAt doc \<ge> TEN_MINUTES_MS" by simp
  with True show ?thesis
    using absorbed_create [of "unused_draft doc (now1 - doc_updatedAt doc)"
        "unused_draft doc (now2 - doc_updatedAt doc)" e e]
    by (simp add: staleness_rule_def absorbed_def Let_def key_unused_draft)
next
  case False
  then show ?thesis by (simp add: staleness_rule_def absorbed_def Let_def)
qed

lemma grows_count_document: "grows count_document"
  by (rule growsI) (simp add: okeys_def count_document_def)

lemma absorbed_count_document: "absorbed count_document count_document"
  by (rule absorbedI) (simp add: count_document_def)

lemma grows_scanDocument: "grows (scanDocument e now doc)"
proof -
  have "grows (\<lambda>sr. content_rule e doc (exposure_rule e doc (staleness_rule e now doc (count_document sr))))"
    by (rule grows_comp [OF grows_comp [OF grows_comp [OF grows_count_document
          grows_staleness_rule] grows_exposure_rule] grows_content_rule])
  then show ?thesis by (simp add: grows_def scanDocument_def)
qed

lemma absorbed_scanDocument:
  assumes "now2 - doc_updatedAt doc \<ge> TEN_MINUTES_MS \<longrightarrow> now1 - doc_updatedAt doc \<ge> TEN_MINUTES_MS"
  shows "absorbed (scanDocument e now1 doc) (scanDocument e now2 doc)"
proof -
  have 1: "absorbed (\<lambda>sr. staleness_rule e now1 doc (count_document sr))
                    (\<lambda>sr. staleness_rule e now2 doc (count_document sr))"
    by (rule absorbed_comp [OF grows_staleness_rule absorbed_count_document
          absorbed_staleness_rule [OF assms]])
  have g1: "grows (\<lambda>sr. staleness_rule e now1 doc (count_document sr))"
    by (rule grows_comp [OF grows_count_document grows_staleness_rule])
  have 2: "absorbed (\<lambda>sr. exposure_rule e doc (staleness_rule e now1 doc (count_document sr)))
                    (\<lambda>sr. exposure_rule e doc (staleness_rule e now2 doc (count_document sr)))"
    by (rule absorbed_comp [OF grows_exposure_rule 1 absorbed_exposure_rule])
  have 3: "absorbed
      (\<lambda>sr. content_rule e doc (exposure_rule e doc (staleness_rule e now1 doc (count_document sr))))
      (\<lambda>sr. content_rule e doc (exposure_rule e doc (staleness_rule e now2 doc (count_document sr))))"
    by (rule absorbed_comp [OF grows_content_rule 2 absorbed_content_rule])
  then show ?thesis by (simp add: absorbed_def scanDocument_def)
qed

lemma grows_scanDocuments: "grows (scanDocuments e now docs)"
proof (induction docs)
  case Nil
  show ?case by (rule growsI) simp
next
  case (Cons doc docs)
  have "grows (\<lambda>sr. scanDocuments e now docs (scanDocument e now doc sr))"
    by (rule grows_comp [OF grows_scanDocument Cons])
  then show ?case by (simp add: grows_def)
qed

lemma absorbed_scanDocuments:
  assumes "\<forall>doc\<in>set docs. now2 - doc_updatedAt doc \<ge> TEN_MINUTES_MS \<longrightarrow>
                           now1 - doc_updatedAt doc \<ge> TEN_MINUTES_MS"
  shows "absorbed (scanDocuments e now1 docs) (scanDocuments e now2 docs)"
  using assms
proof (induction docs)
  case Nil
  show ?case by (rule absorbedI) simp
next
  case (Cons doc docs)
  have d: "absorbed (scanDocument e now1 doc) (scanDocument e now2 doc)"
    using Cons.prems by (simp add: absorbed_scanDocument)
  have r: "absorbed (scanDocuments e now1 docs) (scanDocuments e now2 docs)"
    using Cons by simp
  have "absorbed (\<lambda>sr. scanDocuments e now1 docs (scanDocument e now1 doc sr))
                 (\<lambda>sr. scanDocuments e now2 docs (scanDocument e now2 doc sr))"
    by (rule absorbed_comp [OF grows_scanDocuments d r])
  then show ?case by (simp add: absorbed_def)
qed

subsection \<open>What a scan records\<close>

lemma fetch_docs_ok: "docs_response e = Items (Some docs) \<Longrightarrow> fetchDocumentsFromCoda e = Inr docs"
  by (simp add: fetchDocumentsFromCoda_def)

lemma run_ok:
  assumes "docs_response e = Items (Some docs)"
  shows "runSecurityScan e s =
     (Inr (snd (scanDocuments e (clock e (ticks s)) docs
                 (s\<lparr>ticks := Suc (ticks s), documents := docs\<rparr>,
                  \<lparr>documentsScanned = 0, alertsCreated = 0, errors = []\<rparr>))),
      fst (scanDocuments e (clock e (ticks s)) docs
                 (s\<lparr>ticks := Suc (ticks s), documents := docs\<rparr>,
                  \<lparr>documentsScanned = 0, alertsCreated = 0, errors = []\<rparr>)))"
  by (simp add: runSecurityScan_def fetch_docs_ok [OF assms] Let_def)

lemma rescan_server:
  assumes d: "docs_response e = Items (Some docs)"
    and st: "\<forall>doc\<in>set docs. clock e (ticks s1) - doc_updatedAt doc \<ge> TEN_MINUTES_MS \<longrightarrow>
                              clock e (ticks s0) - doc_updatedAt doc \<ge> TEN_MINUTES_MS"
    and s1: "snd (runSecurityScan e s0) = s1"
  shows "snd (runSecurityScan e s1) = s1\<lparr>ticks := Suc (ticks s1), documents := docs\<rparr>"
proof -
  let ?r0 = "\<lparr>documentsScanned = 0, alertsCreated = 0, errors = []\<rparr>"
  let ?x = "(s0\<lparr>ticks := Suc (ticks s0), documents := docs\<rparr>, ?r0)"
  let ?t = "(s1\<lparr>ticks := Suc (ticks s1), documents := docs\<rparr>, ?r0)"
  have 1: "s1 = fst (scanDocuments e (clock e (ticks s0)) docs ?x)"
    using s1 run_ok [OF d, of s0] by simp
  have "okeys (scanDocuments e (clock e (ticks s0)) docs ?x) = okeys ?t"
    using 1 by (simp add: okeys_def)
  then have "fst (scanDocuments e (clock e (ticks s1)) docs ?t) = fst ?t"
    using absorbedD [OF absorbed_scanDocuments [OF st, of e]] by blast
  then show ?thesis
    using run_ok [OF d, of s1] by simp
qed

lemma createAlert_returns_existing:
  assumes "key d \<in> set (open_keys (alerts s))"
  shows "\<exists>a. createAlert e d s = (a, s) \<and> a \<in> set (alerts s) \<and> status a = OPEN \<and> key a = key d"
proof -
  from assms obtain a where a: "find (same_open d) (alerts s) = Some a"
    using find_same_open_None [of d "alerts s"] by auto
  then have "a \<in> set (alerts s) \<and> same_open d a"
    by (auto simp: find_Some_iff)
  with a show ?thesis
    by (auto simp: createAlert_def same_open_key is_open_def)
qed

















text \<open>
  C8, as amended.  Take a scan of a fixture, and scan the same fixture again from the
  state the first scan left.  If no document is stale at the clock reading of the second
  scan without having been stale at the reading of the first, the second scan leaves the
  stored alerts, their number and the id counter as they were.  And whenever a draft's key
  is the key of an open alert, \<^verbatim>\<open>createAlert\<close> returns an open alert of the store with
  that key and leaves the whole server state unchanged.
\<close>

theorem rescan_creates_nothing:
  assumes "docs_response e = Items (Some docs)"
    and "\<forall>doc\<in>set docs. clock e (ticks s1) - doc_updatedAt doc \<ge> TEN_MINUTES_MS \<longrightarrow>
                            clock e (ticks s0) - doc_updatedAt doc \<ge> TEN_MINUTES_MS"
    and "snd (runSecurityScan e s0) = s1"
  shows "alerts (snd (runSecurityScan e s1)) = alerts s1 \<and>
         length (alerts (snd (runSecurityScan e s1))) = length (alerts s1) \<and>
         alertIdCounter (snd (runSecurityScan e s1)) = alertIdCounter s1 \<and>
         (key d \<in> set (open_keys (alerts s)) \<longrightarrow>
            (\<exists>a. createAlert e d s = (a, s) \<and> a \<in> set (alerts s) \<and> status a = OPEN \<and> key a = key d))"
  using rescan_server [OF assms] createAlert_returns_existing [of d s e] by simp

theorem rescan_creates_nothing_witness:
  "alerts (snd (runSecurityScan quiet_env (snd (runSecurityScan quiet_env initial_server)))) =
     alerts (snd (runSecurityScan quiet_env initial_server)) \<and>
   length (alerts (snd (runSecurityScan quiet_env (snd (runSecurityScan quiet_env initial_server))))) =
     length (alerts (snd (runSecurityScan quiet_env initial_server))) \<and>
   alertIdCounter (snd (runSecurityScan quiet_env (snd (runSecurityScan quiet_env initial_server)))) =
     alertIdCounter (snd (runSecurityScan quiet_env initial_server)) \<and>
   (\<exists>a. createAlert quiet_env doc_draft (snd (runSecurityScan quiet_env initial_server)) =
          (a, snd (runSecurityScan quiet_env initial_server)) \<and>
        a \<in> set (alerts (snd (runSecurityScan quiet_env initial_server))) \<and>
        status a = OPEN \<and> key a = key doc_draft)"
proof -
  have d: "docs_response quiet_env = Items (Some [fixture_doc])"
    by code_simp
  have st: "\<forall>doc\<in>set [fixture_doc].
      clock quiet_env (ticks (snd (runSecurityScan quiet_env initial_server))) - doc_updatedAt doc
        \<ge> TEN_MINUTES_MS \<longrightarrow>
      clock quiet_env (ticks initial_server) - doc_updatedAt doc \<ge> TEN_MINUTES_MS"
    by code_simp
  have k: "key doc_draft \<in> set (open_keys (alerts (snd (runSecurityScan quiet_env initial_server))))"
    by code_simp
  show ?thesis
    using rescan_creates_nothing [OF d st refl, of doc_draft
        "snd (runSecurityScan quiet_env initial_server)"] k
    by blast
qed

theorem rescan_creates_alert_counterexample:
  "length (alerts (snd (runSecurityScan aging_env initial_server))) = 0 \<and>
   length (alerts (snd (runSecurityScan aging_env (snd (runSecurityScan aging_env initial_server))))) = 1"
  by code_simp

subsection \<open>The scan of one stale, published document\<close>







text \<open>
  C1 fails on the code: \<open>alertsCreated\<close> is incremented after every call of
  \<^verbatim>\<open>createAlert\<close>, also when the call returned an existing alert.  A second scan of an
  unchanged fixture reports 2 while the store still holds the 2 alerts of the first scan;
  and a first scan of a row with two sensitive cells reports 4 while 3 alerts are stored.
\<close>

theorem alertsCreated_counts_dedup_hits:
  "fst (runSecurityScan quiet_env initial_server) =
     Inr \<lparr>documentsScanned = 1, alertsCreated = 2, errors = []\<rparr> \<and>
   length (alerts (snd (runSecurityScan quiet_env initial_server))) = 2 \<and>
   fst (runSecurityScan quiet_env (snd (runSecurityScan quiet_env initial_server))) =
     Inr \<lparr>documentsScanned = 1, alertsCreated = 2, errors = []\<rparr> \<and>
   length (alerts (snd (runSecurityScan quiet_env (snd (runSecurityScan quiet_env initial_server))))) = 2 \<and>
   fst (runSecurityScan table_env initial_server) =
     Inr \<lparr>documentsScanned = 1, alertsCreated = 4, errors = []\<rparr> \<and>
   length (alerts (snd (runSecurityScan table_env initial_server))) = 3"
  by code_simp

subsection \<open>Cell values\<close>






end
